theory Spec2Isabelle
  imports Complex_Main "HOL-Library.Sublist"
begin

section \<open>PostgresStore: a vector store over a relational store handle\<close>

text \<open>
  A shallow embedding of \<^verbatim>\<open>src/langchain/src/vectorstores/postgres.ts\<close>.

  The class talks to two collaborators it does not own: the store handle
  (\<^verbatim>\<open>client.query\<close>) and the embedding provider (\<^verbatim>\<open>embeddings.embedDocuments\<close>).
  Both are parameters of the model. Every call made to them is appended to a log kept in
  an explicit world state, so that "no call is made" and "exactly these calls, in this
  order" are statements about the log. A rejected promise is the left summand of a sum
  type, a resolved one the right summand.

  The code does no arithmetic on numbers: it passes embedding components and similarity
  scores through. They are modelled as reals; only their order is used.
\<close>

subsection \<open>Values of the host language\<close>

text \<open>An error object: its \<^verbatim>\<open>name\<close> and its \<^verbatim>\<open>message\<close>.\<close>

datatype js_error = JsError (errName: string) (errMessage: string)

text \<open>
  \<^verbatim>\<open>`${error}`\<close> renders an error object with \<^verbatim>\<open>Error.prototype.toString\<close>:
  the name, a colon and a blank, the message; one of them alone when the other is empty.
\<close>

definition errorToString :: "js_error \<Rightarrow> string" where
  "errorToString e =
     (if errName e = [] then errMessage e
      else if errMessage e = [] then errName e
      else errName e @ '': '' @ errMessage e)"

text \<open>
  Reading a property of \<^verbatim>\<open>undefined\<close> (here \<^verbatim>\<open>documents[idx].pageContent\<close> with
  \<^verbatim>\<open>idx\<close> past the end of \<^verbatim>\<open>documents\<close>) throws a TypeError. Its message is the
  engine's and plays no part below.
\<close>

definition TypeError :: js_error where
  "TypeError = JsError ''TypeError'' ''Cannot read properties of undefined''"

text \<open>A metadata value: an object (its entries in order), or \<^verbatim>\<open>undefined\<close>.\<close>

datatype js_object = Undefined | Object "(string \<times> string) list"

text \<open>
  Modelled from the spec: the class \<^verbatim>\<open>Document\<close> is imported from
  \<^verbatim>\<open>../document.js\<close>, which is not among the sources. The spec's data model gives a
  document as an immutable value of text content and a metadata mapping; the constructor
  call \<^verbatim>\<open>new Document({pageContent, metadata})\<close> is the record with these two fields.
\<close>

record Document =
  pageContent :: string
  metadata :: js_object

text \<open>The row shape the store answers a search with (interface SearchEmbeddingsResponse).\<close>

record SearchEmbeddingsResponse =
  resp_id :: int
  resp_content :: string
  resp_metadata :: js_object
  resp_similarity :: real

text \<open>An element of \<^verbatim>\<open>rows\<close> in \<^verbatim>\<open>addVectors\<close>: content, embedding, metadata.\<close>

record vector_row =
  row_content :: string
  row_embedding :: "real list"
  row_metadata :: js_object

subsection \<open>The collaborators and the world\<close>

text \<open>
  A call \<^verbatim>\<open>client.query(text, values)\<close>: the statement text and the array of bound
  values (a table name, a chunk of rows, or the numbers of a query vector).
\<close>

datatype param = PString string | PRows "vector_row list" | PNumber real

record query_call =
  q_text :: string
  q_params :: "param list"

text \<open>
  The store handle: given the calls already made and the present call, it either throws
  or answers with rows. Any deterministic store is such a function.
\<close>

type_synonym Client = "query_call list \<Rightarrow> query_call \<Rightarrow> js_error + SearchEmbeddingsResponse list"

text \<open>The embedding provider (\<^verbatim>\<open>embedDocuments\<close>): texts in, vectors or an error out.\<close>

type_synonym Embeddings = "string list \<Rightarrow> js_error + real list list"

record world =
  queries :: "query_call list"
  embedCalls :: "string list list"

record PostgresLibArgs =
  args_client :: Client
  args_tableName :: "string option"

record PostgresStore =
  client :: Client
  tableName :: string
  embeddings :: Embeddings

text \<open>
  The constructor. \<^verbatim>\<open>args.tableName || "documents"\<close>: an absent table name and the
  empty string are both falsy and give the default. The base class, which is not among
  the sources, keeps the embedding provider it is given.
\<close>

definition new_PostgresStore :: "Embeddings \<Rightarrow> PostgresLibArgs \<Rightarrow> PostgresStore" where
  "new_PostgresStore emb args =
     \<lparr> client = args_client args,
       tableName = (case args_tableName args of
                      None \<Rightarrow> ''documents''
                    | Some t \<Rightarrow> if t = [] then ''documents'' else t),
       embeddings = emb \<rparr>"

text \<open>\<^verbatim>\<open>await this.client.query(text, values)\<close>: the answer, and the call logged.\<close>

definition client_query ::
  "PostgresStore \<Rightarrow> query_call \<Rightarrow> world \<Rightarrow> (js_error + SearchEmbeddingsResponse list) \<times> world" where
  "client_query s c w = (client s (queries w) c, w\<lparr>queries := queries w @ [c]\<rparr>)"

text \<open>\<^verbatim>\<open>await this.embeddings.embedDocuments(texts)\<close>: the answer, and the call logged.\<close>

definition embedDocuments ::
  "PostgresStore \<Rightarrow> string list \<Rightarrow> world \<Rightarrow> (js_error + real list list) \<times> world" where
  "embedDocuments s texts w = (embeddings s texts, w\<lparr>embedCalls := embedCalls w @ [texts]\<rparr>)"

subsection \<open>addVectors and addDocuments\<close>

text \<open>
  \<^verbatim>\<open>vectors.map((embedding, idx) => ({content: documents[idx].pageContent, embedding,
  metadata: documents[idx].metadata}))\<close>. The map runs over the vectors; a vector with
  no document at its index throws, and the map stands before the \<^verbatim>\<open>try\<close> block.
\<close>

fun make_rows :: "real list list \<Rightarrow> Document list \<Rightarrow> js_error + vector_row list" where
  "make_rows [] ds = Inr []"
| "make_rows (v # vs) [] = Inl TypeError"
| "make_rows (v # vs) (d # ds) =
     (case make_rows vs ds of
        Inl e \<Rightarrow> Inl e
      | Inr rs \<Rightarrow>
          Inr (\<lparr> row_content = pageContent d, row_embedding = v, row_metadata = metadata d \<rparr> # rs))"

definition chunkSize :: nat where
  "chunkSize = 200"

text \<open>\<^verbatim>\<open>rows.slice(i, j)\<close> for indices \<open>0 \<le> i \<le> j\<close>.\<close>

definition slice :: "'a list \<Rightarrow> nat \<Rightarrow> nat \<Rightarrow> 'a list" where
  "slice xs i j = take (j - i) (drop i xs)"

definition nl :: string where
  "nl = [CHR 0x0A]"

text \<open>The text of the merge statement, a template literal with nothing interpolated.\<close>

definition mergeQuery :: string where
  "mergeQuery =
     nl @ ''        MERGE INTO $1 d''
   @ nl @ ''        USING (''
   @ nl @ ''          SELECT $2::text as content,''
   @ nl @ ''                $3::jsonb as metadata,''
   @ nl @ ''                $4::vector(1536) as embedding''
   @ nl @ ''        ) AS v(content, metadata, embedding)''
   @ nl @ ''        ON (d.content = v.content AND d.metadata = v.metadata)''
   @ nl @ ''        WHEN MATCHED THEN''
   @ nl @ ''          UPDATE SET embedding = v.embedding''
   @ nl @ ''        WHEN NOT MATCHED THEN''
   @ nl @ ''          INSERT (content, metadata, embedding) VALUES (v.content, v.metadata, v.embedding)''
   @ nl @ ''      ''"

text \<open>The call of one chunk: \<^verbatim>\<open>this.client.query(query, [this.tableName, chunk])\<close>.\<close>

definition merge_call :: "PostgresStore \<Rightarrow> vector_row list \<Rightarrow> query_call" where
  "merge_call s chunk = \<lparr> q_text = mergeQuery, q_params = [PString (tableName s), PRows chunk] \<rparr>"

text \<open>
  The body of the \<^verbatim>\<open>try\<close> block: \<^verbatim>\<open>for (let i = 0; i < rows.length; i += chunkSize)\<close>,
  started at \<open>i\<close>. Each write is awaited before the next is made; a write that throws
  leaves the loop.
\<close>

function addVectors_loop ::
  "PostgresStore \<Rightarrow> vector_row list \<Rightarrow> nat \<Rightarrow> world \<Rightarrow> (js_error + unit) \<times> world" where
  "addVectors_loop s rows i w =
     (if i < length rows then
        (case client_query s (merge_call s (slice rows i (i + chunkSize))) w of
           (Inl e, w') \<Rightarrow> (Inl e, w')
         | (Inr _, w') \<Rightarrow> addVectors_loop s rows (i + chunkSize) w')
      else (Inr (), w))"
  by pat_completeness auto
termination
  by (relation "measure (\<lambda>(s, rows, i, w). length rows - i)") (auto simp: chunkSize_def)

text \<open>
  \<^verbatim>\<open>addVectors\<close>. The \<^verbatim>\<open>catch\<close> block is empty (its \<^verbatim>\<open>throw\<close> is commented out),
  so an error of the loop is dropped and the promise resolves.
\<close>

definition addVectors ::
  "PostgresStore \<Rightarrow> real list list \<Rightarrow> Document list \<Rightarrow> world \<Rightarrow> (js_error + unit) \<times> world" where
  "addVectors s vectors documents w =
     (case make_rows vectors documents of
        Inl e \<Rightarrow> (Inl e, w)
      | Inr rows \<Rightarrow>
          (case addVectors_loop s rows 0 w of
             (Inl e, w') \<Rightarrow> (Inr (), w')
           | (Inr u, w') \<Rightarrow> (Inr (), w')))"

definition addDocuments ::
  "PostgresStore \<Rightarrow> Document list \<Rightarrow> world \<Rightarrow> (js_error + unit) \<times> world" where
  "addDocuments s documents w =
     (let texts = map pageContent documents in
      case embedDocuments s texts w of
        (Inl e, w') \<Rightarrow> (Inl e, w')
      | (Inr vectors, w') \<Rightarrow> addVectors s vectors documents w')"

subsection \<open>similaritySearchVectorWithScore\<close>

text \<open>\<^verbatim>\<open>.replace(/\.\.\./g, "")\<close>: every run of three dots, left to right, is removed.\<close>

fun removeEllipsis :: "string \<Rightarrow> string" where
  "removeEllipsis (a # b # c # rest) =
     (if a = CHR ''.'' \<and> b = CHR ''.'' \<and> c = CHR ''.'' then removeEllipsis rest
      else a # removeEllipsis (b # c # rest))"
| "removeEllipsis xs = xs"

text \<open>\<^verbatim>\<open>Array.prototype.toString\<close>: the elements' renderings joined by commas.\<close>

fun join_comma :: "string list \<Rightarrow> string" where
  "join_comma [] = []"
| "join_comma [x] = x"
| "join_comma (x # y # ys) = x @ '','' @ join_comma (y # ys)"

text \<open>
  The decimal rendering of \<open>k\<close>. The claims speak of \<open>k\<close> as a count of rows, so it
  is a natural number here.
\<close>

definition digit :: "nat \<Rightarrow> char" where
  "digit d = ''0123456789'' ! d"

function natToString :: "nat \<Rightarrow> string" where
  "natToString n = (if n < 10 then [digit n] else natToString (n div 10) @ [digit (n mod 10)])"
  by pat_completeness auto
termination
  by (relation "measure id") auto

text \<open>
  The text of the search statement. \<open>numberToString\<close> is the host language's rendering
  of a number, a parameter of the model.
\<close>

definition similaryQuery :: "(real \<Rightarrow> string) \<Rightarrow> string \<Rightarrow> real list \<Rightarrow> nat \<Rightarrow> string" where
  "similaryQuery numberToString table query k =
     (let qEmbeddingsStr = removeEllipsis (join_comma (map numberToString query)) in
        nl @ ''      SELECT *,''
      @ nl @ ''      id,''
      @ nl @ ''      content,''
      @ nl @ ''      metadata,''
      @ nl @ ''      1 - (documents.embedding <=> '' @ [CHR 0x27] @ ''['' @ qEmbeddingsStr @ '']''
           @ [CHR 0x27] @ '') as similarity''
      @ nl @ ''      FROM '' @ table
      @ nl @ ''      LIMIT '' @ natToString k
      @ nl @ ''    '')"

definition search_call :: "(real \<Rightarrow> string) \<Rightarrow> PostgresStore \<Rightarrow> real list \<Rightarrow> nat \<Rightarrow> query_call" where
  "search_call numberToString s query k =
     \<lparr> q_text = similaryQuery numberToString (tableName s) query k,
       q_params = map PNumber query \<rparr>"

text \<open>The result of one row: \<^verbatim>\<open>[new Document({metadata, pageContent}), resp.similarity]\<close>.\<close>

definition toResult :: "SearchEmbeddingsResponse \<Rightarrow> Document \<times> real" where
  "toResult resp =
     (\<lparr> pageContent = resp_content resp, metadata = resp_metadata resp \<rparr>, resp_similarity resp)"

definition similaritySearchVectorWithScore ::
  "(real \<Rightarrow> string) \<Rightarrow> PostgresStore \<Rightarrow> real list \<Rightarrow> nat \<Rightarrow> world
     \<Rightarrow> (js_error + (Document \<times> real) list) \<times> world" where
  "similaritySearchVectorWithScore numberToString s query k w =
     (case client_query s (search_call numberToString s query k) w of
        (Inl e, w') \<Rightarrow>
          (Inl (JsError ''Error'' (''Error searching for documents: '' @ errorToString e)), w')
      | (Inr searches, w') \<Rightarrow> (Inr (map toResult searches), w'))"

subsection \<open>The static constructors\<close>

datatype metadatas = MetadataArray "js_object list" | MetadataObject js_object

text \<open>\<^verbatim>\<open>Array.isArray(metadatas) ? metadatas[i] : metadatas\<close>; past the end it is undefined.\<close>

definition metadata_at :: "metadatas \<Rightarrow> nat \<Rightarrow> js_object" where
  "metadata_at ms i =
     (case ms of
        MetadataArray xs \<Rightarrow> if i < length xs then xs ! i else Undefined
      | MetadataObject m \<Rightarrow> m)"

definition fromDocuments ::
  "Document list \<Rightarrow> Embeddings \<Rightarrow> PostgresLibArgs \<Rightarrow> world \<Rightarrow> (js_error + PostgresStore) \<times> world" where
  "fromDocuments docs emb dbConfig w =
     (let instance = new_PostgresStore emb dbConfig in
      case addDocuments instance docs w of
        (Inl e, w') \<Rightarrow> (Inl e, w')
      | (Inr u, w') \<Rightarrow> (Inr instance, w'))"

definition fromTexts ::
  "string list \<Rightarrow> metadatas \<Rightarrow> Embeddings \<Rightarrow> PostgresLibArgs \<Rightarrow> world
     \<Rightarrow> (js_error + PostgresStore) \<times> world" where
  "fromTexts texts ms emb dbConfig w =
     (let docs = map (\<lambda>i. \<lparr> pageContent = texts ! i, metadata = metadata_at ms i \<rparr>)
                     [0 ..< length texts]
      in fromDocuments docs emb dbConfig w)"

definition fromExistingIndex :: "Embeddings \<Rightarrow> PostgresLibArgs \<Rightarrow> PostgresStore" where
  "fromExistingIndex emb dbConfig = new_PostgresStore emb dbConfig"

subsection \<open>The properties in the specification's words\<close>

text \<open>
  The partition of a sequence into chunks of a fixed size: the first \<open>n\<close> elements,
  then the chunks of the rest. The loop of \<^verbatim>\<open>addVectors\<close> is compared with it.
\<close>

function chunksOf :: "nat \<Rightarrow> 'a list \<Rightarrow> 'a list list" where
  "chunksOf n xs = (if n = 0 \<or> xs = [] then [] else take n xs # chunksOf n (drop n xs))"
  by pat_completeness auto
termination
  by (relation "measure (\<lambda>(n, xs). length xs)") auto

text \<open>
  The order the specification asks of a search: the store's rows by descending similarity,
  rows of equal similarity by ascending id; and its image on the results, which carry no
  id.
\<close>

definition ranked :: "SearchEmbeddingsResponse list \<Rightarrow> bool" where
  "ranked rows =
     sorted_wrt (\<lambda>a b. resp_similarity b < resp_similarity a
                   \<or> (resp_similarity a = resp_similarity b \<and> resp_id a \<le> resp_id b)) rows"

definition descending :: "(Document \<times> real) list \<Rightarrow> bool" where
  "descending results = sorted_wrt (\<lambda>a b. snd b \<le> snd a) results"

text \<open>
  The rows \<^verbatim>\<open>addVectors\<close> forms when no vector lacks a document: the vectors paired with
  the documents at the same indices. Pairing stops with the shorter sequence.
\<close>

definition paired_rows :: "real list list \<Rightarrow> Document list \<Rightarrow> vector_row list" where
  "paired_rows vectors documents =
     map (\<lambda>(v, d). \<lparr> row_content = pageContent d, row_embedding = v, row_metadata = metadata d \<rparr>)
         (zip vectors documents)"

text \<open>The calls a run added to the log, and the chunk of rows a merge call carries.\<close>

definition issued :: "world \<Rightarrow> world \<Rightarrow> query_call list" where
  "issued w w' = drop (length (queries w)) (queries w')"

definition call_chunk :: "query_call \<Rightarrow> vector_row list" where
  "call_chunk c = (case q_params c of [t, PRows chunk] \<Rightarrow> chunk | _ \<Rightarrow> [])"

text \<open>
  The chunks submitted one at a time, in their order: each write is made with the log of
  all the writes before it, the next one only after the store has accepted it, and none
  after the first one the store rejects.
\<close>

fun submit_chunks ::
  "PostgresStore \<Rightarrow> vector_row list list \<Rightarrow> world \<Rightarrow> (js_error + unit) \<times> world" where
  "submit_chunks s [] w = (Inr (), w)"
| "submit_chunks s (c # cs) w =
     (case client s (queries w) (merge_call s c) of
        Inl e \<Rightarrow> (Inl e, w\<lparr>queries := queries w @ [merge_call s c]\<rparr>)
      | Inr rs \<Rightarrow> submit_chunks s cs (w\<lparr>queries := queries w @ [merge_call s c]\<rparr>))"

text \<open>
  The store's answer to write \<open>j\<close> of a sequence of chunks, when the writes before it
  have been made in order.
\<close>

definition answer_at ::
  "PostgresStore \<Rightarrow> world \<Rightarrow> vector_row list list \<Rightarrow> nat \<Rightarrow> js_error + SearchEmbeddingsResponse list" where
  "answer_at s w cs j =
     client s (queries w @ map (merge_call s) (take j cs)) (merge_call s (cs ! j))"

subsection \<open>Concrete collaborators and inputs\<close>

text \<open>
  Stores, providers and documents at which the theorems below are instantiated: a store
  that accepts every statement and answers with no rows, one that rejects every
  statement, one that answers a search with two rows in the order they were inserted
  (the lower similarity first), one that answers with the same rows ranked, a provider
  that returns one vector for each text, one that returns a vector too few and one that
  returns a vector too many, and a store that answers as the ranked one does but with
  other row ids.
\<close>

definition w0 :: world where
  "w0 = \<lparr> queries = [], embedCalls = [] \<rparr>"

definition renderOne :: "real \<Rightarrow> string" where
  "renderOne x = ''1''"

definition unitEmbeddings :: Embeddings where
  "unitEmbeddings texts = Inr (map (\<lambda>t. [1]) texts)"

definition shortEmbeddings :: Embeddings where
  "shortEmbeddings texts = Inr (map (\<lambda>t. [1]) (tl texts))"

definition acceptingClient :: Client where
  "acceptingClient h c = Inr []"

definition rejectingClient :: Client where
  "rejectingClient h c = Inl (JsError ''error'' ''relation does not exist'')"

definition rowLow :: SearchEmbeddingsResponse where
  "rowLow = \<lparr> resp_id = 1, resp_content = ''low'', resp_metadata = Object [], resp_similarity = 1/2 \<rparr>"

definition rowHigh :: SearchEmbeddingsResponse where
  "rowHigh = \<lparr> resp_id = 2, resp_content = ''high'', resp_metadata = Object [], resp_similarity = 9/10 \<rparr>"

definition heapOrderClient :: Client where
  "heapOrderClient h c = Inr [rowLow, rowHigh]"

definition rankedClient :: Client where
  "rankedClient h c = Inr [rowHigh, rowLow]"

definition storeOf :: "Client \<Rightarrow> Embeddings \<Rightarrow> PostgresStore" where
  "storeOf c e = new_PostgresStore e \<lparr> args_client = c, args_tableName = None \<rparr>"

definition docA :: Document where
  "docA = \<lparr> pageContent = ''a'', metadata = Object [] \<rparr>"

definition docB :: Document where
  "docB = \<lparr> pageContent = ''b'', metadata = Object [] \<rparr>"

definition docC :: Document where
  "docC = \<lparr> pageContent = ''c'', metadata = Object [] \<rparr>"

definition docD :: Document where
  "docD = \<lparr> pageContent = ''d'', metadata = Object [] \<rparr>"

definition longEmbeddings :: Embeddings where
  "longEmbeddings texts = Inr (map (\<lambda>t. [1]) (''extra'' # texts))"

definition renumberedClient :: Client where
  "renumberedClient h c = Inr [rowHigh\<lparr>resp_id := 42\<rparr>, rowLow\<lparr>resp_id := 41\<rparr>]"

text \<open>
A store that rejects every statement with a given error.
\<close>

definition rejectingWith :: "js_error \<Rightarrow> Client" where
  "rejectingWith e h c = Inl e"

section \<open>Auxiliary facts\<close>

declare chunksOf.simps [simp del]

declare addVectors_loop.simps [simp del]

lemma make_rows_length:
  "make_rows vs ds = Inr rows \<Longrightarrow> length rows = length vs"
  by (induction vs ds arbitrary: rows rule: make_rows.induct) (auto split: sum.splits)

lemma concat_chunksOf: "0 < n \<Longrightarrow> concat (chunksOf n xs) = xs"
proof (induction n xs rule: chunksOf.induct)
  case (1 n xs)
  then show ?case by (subst chunksOf.simps) auto
qed




lemma chunksOf_sizes:
  "0 < n \<Longrightarrow> c \<in> set (chunksOf n xs) \<Longrightarrow> 0 < length c \<and> length c \<le> n"
proof (induction n xs rule: chunksOf.induct)
  case (1 n xs)
  from 1(3) have "xs \<noteq> []" by (subst (asm) chunksOf.simps) (auto split: if_splits)
  with 1 show ?case by (subst (asm) (2) chunksOf.simps) (auto split: if_splits)
qed

lemma loop_embedCalls: "embedCalls (snd (addVectors_loop s rows i w)) = embedCalls w"
proof (induction s rows i w rule: addVectors_loop.induct)
  case (1 s rows i w)
  show ?case
  proof (cases "i < length rows")
    case False
    then show ?thesis by (subst addVectors_loop.simps) simp
  next
    case True
    show ?thesis
    proof (cases "client s (queries w) (merge_call s (slice rows i (i + chunkSize)))")
      case (Inl e)
      with True show ?thesis by (subst addVectors_loop.simps) (simp add: client_query_def)
    next
      case (Inr rs)
      with True 1 [OF True, of "fst (client_query s (merge_call s (slice rows i (i + chunkSize))) w)" "snd (client_query s (merge_call s (slice rows i (i + chunkSize))) w)" rs]
      show ?thesis by (subst addVectors_loop.simps) (simp add: client_query_def)
    qed
  qed
qed


lemma chunksOf_Nil [simp]: "chunksOf n [] = []"
  by (subst chunksOf.simps) simp

lemma slice_chunk: "slice rows i (i + n) = take n (drop i rows)"
  by (simp add: slice_def)

lemma chunksOf_drop_step:
  "i < length rows \<Longrightarrow>
   chunksOf chunkSize (drop i rows) =
     slice rows i (i + chunkSize) # chunksOf chunkSize (drop (i + chunkSize) rows)"
  by (subst chunksOf.simps) (simp add: chunkSize_def add.commute slice_chunk)

lemma chunksOf_drop_done:
  "\<not> i < length rows \<Longrightarrow> chunksOf chunkSize (drop i rows) = []"
  by (subst chunksOf.simps) simp

lemma loop_step_fail:
  assumes "i < length rows"
    and "client s (queries w) (merge_call s (slice rows i (i + chunkSize))) = Inl e"
  shows "addVectors_loop s rows i w =
           (Inl e, w\<lparr>queries := queries w @ [merge_call s (slice rows i (i + chunkSize))]\<rparr>)"
  using assms by (subst addVectors_loop.simps) (simp add: client_query_def)

lemma loop_step_ok:
  assumes "i < length rows"
    and "client s (queries w) (merge_call s (slice rows i (i + chunkSize))) = Inr rs"
  shows "addVectors_loop s rows i w =
           addVectors_loop s rows (i + chunkSize)
             (w\<lparr>queries := queries w @ [merge_call s (slice rows i (i + chunkSize))]\<rparr>)"
  using assms by (subst addVectors_loop.simps) (simp add: client_query_def)

lemma loop_done: "\<not> i < length rows \<Longrightarrow> addVectors_loop s rows i w = (Inr (), w)"
  by (subst addVectors_loop.simps) simp

lemma loop_queries_prefix:
  "\<exists>m. queries (snd (addVectors_loop s rows i w)) =
        queries w @ map (merge_call s) (take m (chunksOf chunkSize (drop i rows)))"
proof (induction s rows i w rule: addVectors_loop.induct)
  case (1 s rows i w)
  let ?c = "merge_call s (slice rows i (i + chunkSize))"
  let ?w = "w\<lparr>queries := queries w @ [?c]\<rparr>"
  show ?case
  proof (cases "i < length rows")
    case False
    then show ?thesis by (simp add: loop_done chunksOf_drop_done)
  next
    case True
    show ?thesis
    proof (cases "client s (queries w) ?c")
      case (Inl e)
      have "queries (snd (addVectors_loop s rows i w)) =
              queries w @ map (merge_call s) (take 1 (chunksOf chunkSize (drop i rows)))"
        by (simp add: loop_step_fail [OF True Inl] chunksOf_drop_step [OF True])
      then show ?thesis by blast
    next
      case (Inr rs)
      have "client_query s ?c w = (Inr rs, ?w)"
        by (simp add: client_query_def Inr)
      from 1 [OF True this [symmetric] refl] obtain m where
        m: "queries (snd (addVectors_loop s rows (i + chunkSize) ?w)) =
              queries ?w @ map (merge_call s) (take m (chunksOf chunkSize (drop (i + chunkSize) rows)))"
        by blast
      have "queries (snd (addVectors_loop s rows i w)) =
              queries w @ map (merge_call s) (take (Suc m) (chunksOf chunkSize (drop i rows)))"
        by (simp add: loop_step_ok [OF True Inr] m chunksOf_drop_step [OF True])
      then show ?thesis by blast
    qed
  qed
qed

lemma loop_all_accepted:
  assumes "\<And>h c. \<exists>rs. client s h c = Inr rs"
  shows "addVectors_loop s rows i w =
           (Inr (), w\<lparr>queries := queries w @ map (merge_call s) (chunksOf chunkSize (drop i rows))\<rparr>)"
  using assms
proof (induction s rows i w rule: addVectors_loop.induct)
  case (1 s rows i w)
  let ?c = "merge_call s (slice rows i (i + chunkSize))"
  let ?w = "w\<lparr>queries := queries w @ [?c]\<rparr>"
  show ?case
  proof (cases "i < length rows")
    case False
    then show ?thesis by (simp add: loop_done chunksOf_drop_done)
  next
    case True
    from 1(2) obtain rs where rs: "client s (queries w) ?c = Inr rs" by blast
    have "client_query s ?c w = (Inr rs, ?w)"
      by (simp add: client_query_def rs)
    from 1(1) [OF True this [symmetric] refl 1(2)] show ?thesis
      by (simp add: loop_step_ok [OF True rs] chunksOf_drop_step [OF True])
  qed
qed


lemma search_answered:
  assumes "client s (queries w) (search_call nts s q k) = Inr rows"
  shows "similaritySearchVectorWithScore nts s q k w =
           (Inr (map toResult rows), w\<lparr>queries := queries w @ [search_call nts s q k]\<rparr>)"
  using assms by (simp add: similaritySearchVectorWithScore_def client_query_def)

lemma search_failed:
  assumes "client s (queries w) (search_call nts s q k) = Inl e"
  shows "similaritySearchVectorWithScore nts s q k w =
           (Inl (JsError ''Error'' (''Error searching for documents: '' @ errorToString e)),
            w\<lparr>queries := queries w @ [search_call nts s q k]\<rparr>)"
  using assms by (simp add: similaritySearchVectorWithScore_def client_query_def)

lemma search_logs_one_call:
  "snd (similaritySearchVectorWithScore nts s q k w) =
     w\<lparr>queries := queries w @ [search_call nts s q k]\<rparr>"
  by (cases "client s (queries w) (search_call nts s q k)")
     (simp_all add: search_answered search_failed)

lemma ranked_descending: "ranked rows \<Longrightarrow> descending (map toResult rows)"
  unfolding ranked_def descending_def sorted_wrt_map
  by (erule sorted_wrt_mono_rel [rotated]) (auto simp: toResult_def)

lemma make_rows_paired:
  "length vs \<le> length ds \<Longrightarrow> make_rows vs ds = Inr (paired_rows vs ds)"
  by (induction vs ds rule: make_rows.induct) (simp_all add: paired_rows_def)

lemma make_rows_surplus:
  "length ds < length vs \<Longrightarrow> make_rows vs ds = Inl TypeError"
  by (induction vs ds rule: make_rows.induct) simp_all

lemma paired_rows_length:
  "length vs \<le> length ds \<Longrightarrow> length (paired_rows vs ds) = length vs"
  by (simp add: paired_rows_def)

lemma paired_rows_nth:
  "length vs \<le> length ds \<Longrightarrow> i < length vs \<Longrightarrow>
   paired_rows vs ds ! i =
     \<lparr> row_content = pageContent (ds ! i), row_embedding = vs ! i, row_metadata = metadata (ds ! i) \<rparr>"
  by (simp add: paired_rows_def)

lemma paired_rows_take: "paired_rows vs (take (length vs) ds) = paired_rows vs ds"
proof -
  have "zip vs (take (length vs) ds) = zip vs ds"
  proof (induction vs arbitrary: ds)
    case Nil
    show ?case by simp
  next
    case (Cons v vs)
    show ?case by (cases ds) (simp_all add: Cons.IH)
  qed
  then show ?thesis by (simp add: paired_rows_def)
qed

lemma addVectors_paired:
  "length vs \<le> length ds \<Longrightarrow>
   addVectors s vs ds w = (Inr (), snd (addVectors_loop s (paired_rows vs ds) 0 w))"
  by (simp add: addVectors_def make_rows_paired split: prod.split sum.split)

lemma addVectors_surplus:
  "length ds < length vs \<Longrightarrow> addVectors s vs ds w = (Inl TypeError, w)"
  by (simp add: addVectors_def make_rows_surplus)

lemma addVectors_accepted:
  assumes "length vs \<le> length ds" and "\<And>h c. \<exists>rs. client s h c = Inr rs"
  shows "addVectors s vs ds w =
           (Inr (), w\<lparr>queries := queries w @ map (merge_call s) (chunksOf chunkSize (paired_rows vs ds))\<rparr>)"
  using loop_all_accepted [of s "paired_rows vs ds" 0 w, OF assms(2)]
  by (simp add: addVectors_paired [OF assms(1)])

lemma addVectors_queries_prefix:
  assumes "length vs \<le> length ds"
  shows "\<exists>m. queries (snd (addVectors s vs ds w)) =
           queries w @ map (merge_call s) (take m (chunksOf chunkSize (paired_rows vs ds)))"
  using loop_queries_prefix [of s "paired_rows vs ds" 0 w]
  by (simp add: addVectors_paired [OF assms])

lemma addVectors_queries_merge:
  "\<exists>cs. queries (snd (addVectors s vs ds w)) = queries w @ map (merge_call s) cs"
proof (cases "length vs \<le> length ds")
  case True
  from addVectors_queries_prefix [OF True] show ?thesis by blast
next
  case False
  then have "queries (snd (addVectors s vs ds w)) = queries w @ map (merge_call s) []"
    by (simp add: addVectors_surplus)
  then show ?thesis by blast
qed

lemma addVectors_embedCalls: "embedCalls (snd (addVectors s vs ds w)) = embedCalls w"
  by (cases "length vs \<le> length ds")
     (simp_all add: addVectors_paired addVectors_surplus loop_embedCalls)

lemma addDocuments_embed_failed:
  "embeddings s (map pageContent ds) = Inl e \<Longrightarrow>
   addDocuments s ds w = (Inl e, w\<lparr>embedCalls := embedCalls w @ [map pageContent ds]\<rparr>)"
  by (simp add: addDocuments_def embedDocuments_def)

lemma addDocuments_embedded:
  "embeddings s (map pageContent ds) = Inr vs \<Longrightarrow>
   addDocuments s ds w =
     addVectors s vs ds (w\<lparr>embedCalls := embedCalls w @ [map pageContent ds]\<rparr>)"
  by (simp add: addDocuments_def embedDocuments_def)

lemma addDocuments_queries_merge:
  "\<exists>cs. queries (snd (addDocuments s ds w)) = queries w @ map (merge_call s) cs"
proof (cases "embeddings s (map pageContent ds)")
  case (Inl e)
  then have "queries (snd (addDocuments s ds w)) = queries w @ map (merge_call s) []"
    by (simp add: addDocuments_embed_failed)
  then show ?thesis by blast
next
  case (Inr vs)
  from addVectors_queries_merge [of s vs ds "w\<lparr>embedCalls := embedCalls w @ [map pageContent ds]\<rparr>"]
  show ?thesis by (simp add: addDocuments_embedded [OF Inr])
qed

lemma addDocuments_embedCalls:
  "embedCalls (snd (addDocuments s ds w)) = embedCalls w @ [map pageContent ds]"
  by (cases "embeddings s (map pageContent ds)")
     (simp_all add: addDocuments_embed_failed addDocuments_embedded addVectors_embedCalls)


lemma natToString_examples: "natToString 201 = ''201'' \<and> natToString 0 = ''0'' \<and> natToString 10 = ''10''"
  by (simp add: digit_def)

lemma removeEllipsis_example: "removeEllipsis ''1,2....5...'' = ''1,2.5''" by simp

lemma merge_call_params:
  "\<forall>c \<in> set (map (merge_call s) cs). q_params c = [PString (tableName s), PRows (call_chunk c)]"
  by (simp add: merge_call_def call_chunk_def)

lemma addVectors_issued_params:
  "\<forall>c \<in> set (issued w (snd (addVectors s vs ds w))).
     q_params c = [PString (tableName s), PRows (call_chunk c)]"
proof -
  from addVectors_queries_merge [of s vs ds w] obtain cs where
    "queries (snd (addVectors s vs ds w)) = queries w @ map (merge_call s) cs" by blast
  then have "issued w (snd (addVectors s vs ds w)) = map (merge_call s) cs"
    by (simp add: issued_def)
  with merge_call_params [of s cs] show ?thesis by simp
qed

lemma addDocuments_issued_params:
  "\<forall>c \<in> set (issued w (snd (addDocuments s ds w))).
     q_params c = [PString (tableName s), PRows (call_chunk c)]"
proof -
  from addDocuments_queries_merge [of s ds w] obtain cs where
    "queries (snd (addDocuments s ds w)) = queries w @ map (merge_call s) cs" by blast
  then have "issued w (snd (addDocuments s ds w)) = map (merge_call s) cs"
    by (simp add: issued_def)
  with merge_call_params [of s cs] show ?thesis by simp
qed

lemma fromDocuments_world:
  "snd (fromDocuments docs emb args w) = snd (addDocuments (new_PostgresStore emb args) docs w)"
  by (simp add: fromDocuments_def Let_def split: prod.split sum.split)

lemma fromDocuments_instance:
  "fromDocuments docs emb args w = (Inr inst, w') \<Longrightarrow> inst = new_PostgresStore emb args"
  by (auto simp: fromDocuments_def Let_def split: prod.splits sum.splits)

lemma default_name: "args_tableName args = None \<Longrightarrow> tableName (new_PostgresStore emb args) = ''documents''"
  by (simp add: new_PostgresStore_def)

lemma loop_submit:
  "addVectors_loop s rows i w = submit_chunks s (chunksOf chunkSize (drop i rows)) w"
proof (induction s rows i w rule: addVectors_loop.induct)
  case (1 s rows i w)
  let ?c = "merge_call s (slice rows i (i + chunkSize))"
  let ?w = "w\<lparr>queries := queries w @ [?c]\<rparr>"
  show ?case
  proof (cases "i < length rows")
    case False
    then show ?thesis by (simp add: loop_done chunksOf_drop_done)
  next
    case True
    show ?thesis
    proof (cases "client s (queries w) ?c")
      case (Inl e)
      then show ?thesis
        by (simp add: loop_step_fail [OF True Inl] chunksOf_drop_step [OF True])
    next
      case (Inr rs)
      have "client_query s ?c w = (Inr rs, ?w)"
        by (simp add: client_query_def Inr)
      from 1 [OF True this [symmetric] refl] show ?thesis
        by (simp add: loop_step_ok [OF True Inr] chunksOf_drop_step [OF True] Inr)
    qed
  qed
qed

lemma answer_at_0: "answer_at s w (c # cs) 0 = client s (queries w) (merge_call s c)"
  by (simp add: answer_at_def)

lemma answer_at_Suc:
  "answer_at s w (c # cs) (Suc j) = answer_at s (w\<lparr>queries := queries w @ [merge_call s c]\<rparr>) cs j"
  by (simp add: answer_at_def)

lemma submit_explicit:
  "\<exists>m \<le> length cs.
      queries (snd (submit_chunks s cs w)) = queries w @ map (merge_call s) (take m cs)
    \<and> (\<forall>j. Suc j < m \<longrightarrow> \<not> isl (answer_at s w cs j))
    \<and> (m < length cs \<longrightarrow> 0 < m \<and> isl (answer_at s w cs (m - 1)))"
proof (induction cs arbitrary: w)
  case Nil
  show ?case by simp
next
  case (Cons c cs)
  let ?w = "w\<lparr>queries := queries w @ [merge_call s c]\<rparr>"
  show ?case
  proof (cases "client s (queries w) (merge_call s c)")
    case (Inl e)
    have "1 \<le> length (c # cs)" by simp
    moreover have "queries (snd (submit_chunks s (c # cs) w))
                     = queries w @ map (merge_call s) (take 1 (c # cs))"
      by (simp add: Inl)
    moreover have "\<forall>j. Suc j < 1 \<longrightarrow> \<not> isl (answer_at s w (c # cs) j)" by simp
    moreover have "1 < length (c # cs) \<longrightarrow> 0 < (1::nat) \<and> isl (answer_at s w (c # cs) (1 - 1))"
      by (simp add: answer_at_0 Inl)
    ultimately show ?thesis by blast
  next
    case (Inr rs)
    from Cons.IH [of ?w] obtain m where m: "m \<le> length cs"
      and q: "queries (snd (submit_chunks s cs ?w)) = queries ?w @ map (merge_call s) (take m cs)"
      and a: "\<forall>j. Suc j < m \<longrightarrow> \<not> isl (answer_at s ?w cs j)"
      and r: "m < length cs \<longrightarrow> 0 < m \<and> isl (answer_at s ?w cs (m - 1))"
      by blast
    have "Suc m \<le> length (c # cs)" using m by simp
    moreover have "queries (snd (submit_chunks s (c # cs) w))
                     = queries w @ map (merge_call s) (take (Suc m) (c # cs))"
      by (simp add: Inr q)
    moreover have "\<forall>j. Suc j < Suc m \<longrightarrow> \<not> isl (answer_at s w (c # cs) j)"
    proof (intro allI impI)
      fix j assume "Suc j < Suc m"
      then show "\<not> isl (answer_at s w (c # cs) j)"
        using a by (cases j) (simp_all add: answer_at_0 answer_at_Suc Inr)
    qed
    moreover have "Suc m < length (c # cs) \<longrightarrow>
                     0 < Suc m \<and> isl (answer_at s w (c # cs) (Suc m - 1))"
    proof
      assume "Suc m < length (c # cs)"
      then have "m < length cs" by simp
      with r have "0 < m" and "isl (answer_at s ?w cs (m - 1))" by simp_all
      then show "0 < Suc m \<and> isl (answer_at s w (c # cs) (Suc m - 1))"
        by (cases m) (simp_all add: answer_at_Suc)
    qed
    ultimately show ?thesis by blast
  qed
qed

lemma submit_all_accepted:
  assumes "\<forall>j < length cs. \<not> isl (answer_at s w cs j)"
  shows "queries (snd (submit_chunks s cs w)) = queries w @ map (merge_call s) cs"
proof -
  from submit_explicit [of cs s w] obtain m where m: "m \<le> length cs"
    and q: "queries (snd (submit_chunks s cs w)) = queries w @ map (merge_call s) (take m cs)"
    and r: "m < length cs \<longrightarrow> 0 < m \<and> isl (answer_at s w cs (m - 1))"
    by blast
  have "m = length cs"
  proof (rule ccontr)
    assume "m \<noteq> length cs"
    with m have lt: "m < length cs" by simp
    with r have "0 < m" and "isl (answer_at s w cs (m - 1))" by simp_all
    moreover from lt have "m - 1 < length cs" by simp
    ultimately show False using assms by blast
  qed
  with q show ?thesis by simp
qed

lemma addVectors_submit:
  "length vs \<le> length ds \<Longrightarrow>
   addVectors s vs ds w = (Inr (), snd (submit_chunks s (chunksOf chunkSize (paired_rows vs ds)) w))"
  by (simp add: addVectors_paired loop_submit)

lemma addVectors_issued_explicit:
  assumes "length vs \<le> length ds"
  shows "\<exists>m \<le> length (chunksOf chunkSize (paired_rows vs ds)).
      issued w (snd (addVectors s vs ds w))
        = map (merge_call s) (take m (chunksOf chunkSize (paired_rows vs ds)))
    \<and> (\<forall>j. Suc j < m \<longrightarrow> \<not> isl (answer_at s w (chunksOf chunkSize (paired_rows vs ds)) j))
    \<and> (m < length (chunksOf chunkSize (paired_rows vs ds)) \<longrightarrow>
         0 < m \<and> isl (answer_at s w (chunksOf chunkSize (paired_rows vs ds)) (m - 1)))"
proof -
  let ?cs = "chunksOf chunkSize (paired_rows vs ds)"
  from submit_explicit [of ?cs s w] obtain m where m: "m \<le> length ?cs"
    and q: "queries (snd (submit_chunks s ?cs w)) = queries w @ map (merge_call s) (take m ?cs)"
    and a: "\<forall>j. Suc j < m \<longrightarrow> \<not> isl (answer_at s w ?cs j)"
    and r: "m < length ?cs \<longrightarrow> 0 < m \<and> isl (answer_at s w ?cs (m - 1))"
    by blast
  have "issued w (snd (addVectors s vs ds w)) = map (merge_call s) (take m ?cs)"
    by (simp add: addVectors_submit [OF assms] issued_def q)
  with m a r show ?thesis by blast
qed

lemma addVectors_issued_accepted:
  assumes "length vs \<le> length ds"
    and "\<forall>j < length (chunksOf chunkSize (paired_rows vs ds)).
           \<not> isl (answer_at s w (chunksOf chunkSize (paired_rows vs ds)) j)"
  shows "issued w (snd (addVectors s vs ds w))
           = map (merge_call s) (chunksOf chunkSize (paired_rows vs ds))"
  using submit_all_accepted [OF assms(2)]
  by (simp add: addVectors_submit [OF assms(1)] issued_def)

lemma addVectors_first_rejected:
  assumes "length vs \<le> length ds" and "vs \<noteq> []"
    and "client s (queries w) (merge_call s (take chunkSize (paired_rows vs ds))) = Inl e"
  shows "addVectors s vs ds w =
           (Inr (), w\<lparr>queries := queries w @ [merge_call s (take chunkSize (paired_rows vs ds))]\<rparr>)"
proof -
  have pos: "0 < length (paired_rows vs ds)"
    using assms(1,2) by (simp add: paired_rows_length)
  have sl: "slice (paired_rows vs ds) 0 (0 + chunkSize) = take chunkSize (paired_rows vs ds)"
    by (simp add: slice_def)
  from loop_step_fail [OF pos, of s w e] assms(3) show ?thesis
    by (simp only: sl addVectors_paired [OF assms(1)]) simp
qed

lemma concat_take_chunksOf:
  "0 < n \<Longrightarrow> m \<le> length (chunksOf n xs) \<Longrightarrow> concat (take m (chunksOf n xs)) = take (m * n) xs"
proof (induction n xs arbitrary: m rule: chunksOf.induct)
  case (1 n xs)
  show ?case
  proof (cases m)
    case 0
    then show ?thesis by simp
  next
    case (Suc m')
    with 1(3) have ne: "xs \<noteq> []" by (subst (asm) chunksOf.simps) (auto split: if_splits)
    have unf: "chunksOf n xs = take n xs # chunksOf n (drop n xs)"
      using ne 1(2) by (subst chunksOf.simps) simp
    from 1(3) Suc unf have "m' \<le> length (chunksOf n (drop n xs))" by simp
    with 1(1) [of m'] ne 1(2) have "concat (take m' (chunksOf n (drop n xs))) = take (m' * n) (drop n xs)"
      by simp
    then have "concat (take m (chunksOf n xs)) = take n xs @ take (m' * n) (drop n xs)"
      by (simp add: Suc unf)
    also have "\<dots> = take (n + m' * n) xs"
      by (simp add: take_add)
    finally show ?thesis by (simp add: Suc)
  qed
qed

section \<open>The claims\<close>

subsection \<open>C1: the order of the search results\<close>

text \<open>
  C1, as stated: for every table state and every query vector the search returns its
  results in descending similarity order, equal similarities in ascending stored-row id
  order. The statement text of \<^verbatim>\<open>similaritySearchVectorWithScore\<close> carries no
  ordering clause and the method does not sort: it maps the rows in the order the store
  answered. A store that answers with its rows in insertion order, the less similar row
  first, is returned as it is.
\<close>

theorem search_unordered_counterexample:
  "fst (similaritySearchVectorWithScore renderOne (storeOf heapOrderClient unitEmbeddings) [1] 2 w0)
     = Inr [(\<lparr> pageContent = ''low'', metadata = Object [] \<rparr>, 1/2),
            (\<lparr> pageContent = ''high'', metadata = Object [] \<rparr>, 9/10)]
   \<and> \<not> descending [(\<lparr> pageContent = ''low'', metadata = Object [] \<rparr>, 1/2),
                      (\<lparr> pageContent = ''high'', metadata = Object [] \<rparr>, 9/10)]"
  by (simp add: similaritySearchVectorWithScore_def client_query_def storeOf_def
      new_PostgresStore_def heapOrderClient_def toResult_def rowLow_def rowHigh_def descending_def)

text \<open>
  C1, amended: the search returns one result for each row of the store's answer, in the
  order of the answer, each carrying its row's similarity. So the results are in
  descending similarity order, rows of equal similarity in ascending id order, whenever
  the store answered with its rows in that order.
\<close>

theorem search_keeps_store_order:
  assumes "client s (queries w) (search_call nts s q k) = Inr rows"
  shows "fst (similaritySearchVectorWithScore nts s q k w) = Inr (map toResult rows)
       \<and> map snd (map toResult rows) = map resp_similarity rows
       \<and> (ranked rows \<longrightarrow>
            descending (map toResult rows)
            \<and> (\<forall>i j. i < j \<and> j < length rows
                    \<and> snd (map toResult rows ! i) = snd (map toResult rows ! j)
                  \<longrightarrow> resp_id (rows ! i) \<le> resp_id (rows ! j)))"
proof -
  have ties: "resp_id (rows ! i) \<le> resp_id (rows ! j)"
    if "ranked rows" "i < j" "j < length rows"
       "snd (map toResult rows ! i) = snd (map toResult rows ! j)" for i j
  proof -
    from that have "resp_similarity (rows ! i) = resp_similarity (rows ! j)"
      by (simp add: toResult_def)
    moreover from that have
      "resp_similarity (rows ! j) < resp_similarity (rows ! i)
         \<or> (resp_similarity (rows ! i) = resp_similarity (rows ! j)
              \<and> resp_id (rows ! i) \<le> resp_id (rows ! j))"
      unfolding ranked_def by (simp add: sorted_wrt_iff_nth_less)
    ultimately show ?thesis by simp
  qed
  have sims: "map snd (map toResult rows) = map resp_similarity rows"
    by (simp add: toResult_def comp_def)
  have res: "fst (similaritySearchVectorWithScore nts s q k w) = Inr (map toResult rows)"
    by (simp add: search_answered [OF assms])
  have ord: "ranked rows \<longrightarrow>
            descending (map toResult rows)
            \<and> (\<forall>i j. i < j \<and> j < length rows
                    \<and> snd (map toResult rows ! i) = snd (map toResult rows ! j)
                  \<longrightarrow> resp_id (rows ! i) \<le> resp_id (rows ! j))"
    using ties ranked_descending by blast
  from res sims ord show ?thesis by (intro conjI)
qed

theorem search_keeps_store_order_witness:
  "client (storeOf rankedClient unitEmbeddings) (queries w0)
       (search_call renderOne (storeOf rankedClient unitEmbeddings) [1] 2) = Inr [rowHigh, rowLow]
   \<and> ranked [rowHigh, rowLow]
   \<and> fst (similaritySearchVectorWithScore renderOne (storeOf rankedClient unitEmbeddings) [1] 2 w0)
       = Inr [(\<lparr> pageContent = ''high'', metadata = Object [] \<rparr>, 9/10),
              (\<lparr> pageContent = ''low'', metadata = Object [] \<rparr>, 1/2)]
   \<and> descending [(\<lparr> pageContent = ''high'', metadata = Object [] \<rparr>, 9/10),
                    (\<lparr> pageContent = ''low'', metadata = Object [] \<rparr>, 1/2)]"
proof -
  let ?s = "storeOf rankedClient unitEmbeddings"
  have answer: "client ?s (queries w0) (search_call renderOne ?s [1] 2) = Inr [rowHigh, rowLow]"
    by (simp add: storeOf_def new_PostgresStore_def rankedClient_def)
  have order: "ranked [rowHigh, rowLow]"
    by (simp add: ranked_def rowHigh_def rowLow_def)
  from search_keeps_store_order [OF answer] order
  have "fst (similaritySearchVectorWithScore renderOne ?s [1] 2 w0)
          = Inr (map toResult [rowHigh, rowLow])
        \<and> descending (map toResult [rowHigh, rowLow])"
    by blast
  with answer order show ?thesis
    by (simp add: toResult_def rowHigh_def rowLow_def)
qed

subsection \<open>C2: a failed write is not reported\<close>

text \<open>
  C2: for every non-empty input to \<^verbatim>\<open>addVectors\<close>, a failed write of a chunk is surfaced
  to the caller as an error naming the chunk and the cause. The code does not do so: the
  handler of the loop is empty, its \<^verbatim>\<open>throw\<close> commented out, while the search path
  rethrows what it catches. At one vector, one document and a store that rejects the
  merge statement, the write is made, it fails, and the promise resolves.
\<close>

theorem addVectors_swallows_write_failure:
  "client (storeOf rejectingClient unitEmbeddings) (queries w0)
       (merge_call (storeOf rejectingClient unitEmbeddings)
          [\<lparr> row_content = ''a'', row_embedding = [1], row_metadata = Object [] \<rparr>])
     = Inl (JsError ''error'' ''relation does not exist'')
   \<and> addVectors (storeOf rejectingClient unitEmbeddings) [[1]] [docA] w0
     = (Inr (),
        \<lparr> queries = [merge_call (storeOf rejectingClient unitEmbeddings)
                       [\<lparr> row_content = ''a'', row_embedding = [1], row_metadata = Object [] \<rparr>]],
          embedCalls = [] \<rparr>)"
proof -
  let ?s = "storeOf rejectingClient unitEmbeddings"
  let ?rows = "[\<lparr> row_content = ''a'', row_embedding = [1], row_metadata = Object [] \<rparr>]"
  have rej: "client ?s (queries w0) (merge_call ?s (slice ?rows 0 (0 + chunkSize)))
               = Inl (JsError ''error'' ''relation does not exist'')"
    by (simp add: storeOf_def new_PostgresStore_def rejectingClient_def)
  have sl: "slice ?rows 0 (0 + chunkSize) = ?rows"
    by (simp add: slice_def chunkSize_def)
  have "0 < length ?rows" by simp
  from loop_step_fail [OF this rej]
  have "addVectors_loop ?s ?rows 0 w0 = (Inl (JsError ''error'' ''relation does not exist''),
          w0\<lparr>queries := queries w0 @ [merge_call ?s ?rows]\<rparr>)"
    by (simp only: sl)
  moreover have "make_rows [[1]] [docA] = Inr ?rows"
    by (simp add: docA_def)
  moreover note rej [unfolded sl]
  ultimately show ?thesis
    by (simp add: addVectors_def w0_def)
qed

subsection \<open>C3: a provider that returns the wrong number of vectors\<close>

text \<open>
  C3, as stated: when the provider returns a number of vectors different from the number
  of documents, \<^verbatim>\<open>addDocuments\<close> fails before any write. The code compares no
  lengths. With four documents and three vectors returned, the first three documents
  are written and the promise resolves.
\<close>

theorem addDocuments_short_answer_counterexample:
  "embeddings (storeOf acceptingClient shortEmbeddings) (map pageContent [docA, docB, docC, docD])
     = Inr [[1], [1], [1]]
   \<and> addDocuments (storeOf acceptingClient shortEmbeddings) [docA, docB, docC, docD] w0
     = (Inr (),
        \<lparr> queries = [merge_call (storeOf acceptingClient shortEmbeddings)
                       [\<lparr> row_content = ''a'', row_embedding = [1], row_metadata = Object [] \<rparr>,
                        \<lparr> row_content = ''b'', row_embedding = [1], row_metadata = Object [] \<rparr>,
                        \<lparr> row_content = ''c'', row_embedding = [1], row_metadata = Object [] \<rparr>]],
          embedCalls = [[''a'', ''b'', ''c'', ''d'']] \<rparr>)"
proof -
  let ?s = "storeOf acceptingClient shortEmbeddings"
  have emb: "embeddings ?s (map pageContent [docA, docB, docC, docD]) = Inr [[1], [1], [1]]"
    by (simp add: storeOf_def new_PostgresStore_def shortEmbeddings_def)
  have acc: "\<And>h c. \<exists>rs. client ?s h c = Inr rs"
    by (simp add: storeOf_def new_PostgresStore_def acceptingClient_def)
  have ch: "chunksOf chunkSize (paired_rows [[1], [1], [1]] [docA, docB, docC, docD])
              = [paired_rows [[1], [1], [1]] [docA, docB, docC, docD]]"
    by (subst chunksOf.simps) (simp add: chunkSize_def paired_rows_def)
  have len: "length [[1], [1], [1::real]] \<le> length [docA, docB, docC, docD]"
    by simp
  have "addDocuments ?s [docA, docB, docC, docD] w0
        = (Inr (), \<lparr> queries = [merge_call ?s (paired_rows [[1], [1], [1]] [docA, docB, docC, docD])],
                     embedCalls = [map pageContent [docA, docB, docC, docD]] \<rparr>)"
    by (simp only: addDocuments_embedded [OF emb] addVectors_accepted [OF len acc] ch)
       (simp add: w0_def)
  then show ?thesis using emb
    by (simp add: paired_rows_def docA_def docB_def docC_def docD_def)
qed

text \<open>
  C3, amended: when the provider returns more vectors than there are documents,
  \<^verbatim>\<open>addDocuments\<close> fails with the TypeError of reading the missing document, after the
  provider call and before any store write; when it returns no more vectors than there
  are documents, no error is raised.
\<close>

theorem addDocuments_vector_count:
  assumes "embeddings s (map pageContent documents) = Inr vectors"
  shows "(length documents < length vectors \<longrightarrow>
            addDocuments s documents w =
              (Inl TypeError, w\<lparr>embedCalls := embedCalls w @ [map pageContent documents]\<rparr>))
       \<and> (length vectors \<le> length documents \<longrightarrow> fst (addDocuments s documents w) = Inr ())"
  by (simp add: addDocuments_embedded [OF assms] addVectors_surplus addVectors_paired)

theorem addDocuments_vector_count_witness:
  "embeddings (storeOf acceptingClient longEmbeddings) (map pageContent [docA]) = Inr [[1], [1]]
   \<and> addDocuments (storeOf acceptingClient longEmbeddings) [docA] w0
       = (Inl TypeError, \<lparr> queries = [], embedCalls = [[''a'']] \<rparr>)
   \<and> embeddings (storeOf acceptingClient shortEmbeddings) (map pageContent [docA, docB]) = Inr [[1]]
   \<and> fst (addDocuments (storeOf acceptingClient shortEmbeddings) [docA, docB] w0) = Inr ()"
proof -
  have long: "embeddings (storeOf acceptingClient longEmbeddings) (map pageContent [docA]) = Inr [[1], [1]]"
    by (simp add: storeOf_def new_PostgresStore_def longEmbeddings_def)
  have short: "embeddings (storeOf acceptingClient shortEmbeddings) (map pageContent [docA, docB]) = Inr [[1]]"
    by (simp add: storeOf_def new_PostgresStore_def shortEmbeddings_def)
  from addDocuments_vector_count [OF long, of w0] addDocuments_vector_count [OF short, of w0]
  show ?thesis using long short
    by (simp add: w0_def docA_def)
qed

subsection \<open>C4: a search for zero rows\<close>

text \<open>
  C4, as stated: with \<open>k = 0\<close> the search returns an empty sequence and makes no query.
  The code has no test on \<open>k\<close>: the query is made as for any other \<open>k\<close>.
\<close>

theorem search_zero_k_counterexample:
  "queries w0 = []
   \<and> queries (snd (similaritySearchVectorWithScore renderOne
                     (storeOf acceptingClient unitEmbeddings) [1] 0 w0))
     = [search_call renderOne (storeOf acceptingClient unitEmbeddings) [1] 0]"
  by (simp add: search_logs_one_call w0_def)

text \<open>
  C4, amended: with \<open>k = 0\<close> the search makes exactly one query to the store, whose
  text ends with the limit 0, and returns an empty sequence when the store answers that
  query with no rows.
\<close>

theorem search_zero_k_queries_store:
  "snd (similaritySearchVectorWithScore nts s q 0 w)
     = w\<lparr>queries := queries w @ [search_call nts s q 0]\<rparr>
   \<and> suffix (''      LIMIT 0'' @ nl @ ''    '') (q_text (search_call nts s q 0))
   \<and> (client s (queries w) (search_call nts s q 0) = Inr [] \<longrightarrow>
        fst (similaritySearchVectorWithScore nts s q 0 w) = Inr [])"
proof -
  have "suffix (''      LIMIT 0'' @ nl @ ''    '') (q_text (search_call nts s q 0))"
    unfolding suffix_def
    by (rule exI [of _ "nl @ ''      SELECT *,'' @ nl @ ''      id,'' @ nl @ ''      content,''
          @ nl @ ''      metadata,''
          @ nl @ ''      1 - (documents.embedding <=> '' @ [CHR 0x27] @ ''[''
          @ removeEllipsis (join_comma (map nts q)) @ '']'' @ [CHR 0x27] @ '') as similarity''
          @ nl @ ''      FROM '' @ tableName s @ nl"])
       (simp add: search_call_def similaryQuery_def digit_def)
  then show ?thesis
    by (simp add: search_logs_one_call search_answered)
qed

theorem search_zero_k_queries_store_witness:
  "client (storeOf acceptingClient unitEmbeddings) (queries w0)
       (search_call renderOne (storeOf acceptingClient unitEmbeddings) [1] 0) = Inr []
   \<and> similaritySearchVectorWithScore renderOne (storeOf acceptingClient unitEmbeddings) [1] 0 w0
     = (Inr [], \<lparr> queries = [search_call renderOne (storeOf acceptingClient unitEmbeddings) [1] 0],
                  embedCalls = [] \<rparr>)"
proof -
  let ?s = "storeOf acceptingClient unitEmbeddings"
  have a: "client ?s (queries w0) (search_call renderOne ?s [1] 0) = Inr []"
    by (simp add: storeOf_def new_PostgresStore_def acceptingClient_def)
  from search_zero_k_queries_store [of renderOne ?s "[1]" w0] a
  have "snd (similaritySearchVectorWithScore renderOne ?s [1] 0 w0)
          = w0\<lparr>queries := queries w0 @ [search_call renderOne ?s [1] 0]\<rparr>
        \<and> fst (similaritySearchVectorWithScore renderOne ?s [1] 0 w0) = Inr []"
    by blast
  then show ?thesis using a
    by (simp add: prod_eq_iff w0_def)
qed

subsection \<open>C5: chunks of 200, in input order\<close>




subsection \<open>C6: a failed search\<close>

text \<open>
  C6, as stated: a failed query surfaces a SearchError wrapping the underlying cause. The
  code has no such type: it throws a plain \<^verbatim>\<open>Error\<close> whose message holds the rendering
  of the cause as a string, and nothing else of the cause. Two different causes with the
  same rendering give the same error.
\<close>

theorem search_error_generic_counterexample:
  "JsError [] ''TimeoutError'' \<noteq> JsError ''TimeoutError'' []
   \<and> fst (similaritySearchVectorWithScore renderOne
            (storeOf (rejectingWith (JsError [] ''TimeoutError'')) unitEmbeddings) [1] 2 w0)
       = Inl (JsError ''Error'' ''Error searching for documents: TimeoutError'')
   \<and> fst (similaritySearchVectorWithScore renderOne
            (storeOf (rejectingWith (JsError ''TimeoutError'' [])) unitEmbeddings) [1] 2 w0)
       = Inl (JsError ''Error'' ''Error searching for documents: TimeoutError'')"
  by (simp add: similaritySearchVectorWithScore_def client_query_def storeOf_def
      new_PostgresStore_def rejectingWith_def errorToString_def)

text \<open>
  C6, amended: when the store throws on the search query, the search rejects with an
  error named \<^verbatim>\<open>Error\<close> whose message is \<^verbatim>\<open>Error searching for documents: \<close> followed
  by the rendering of the cause as a string: its name, a colon and a blank, its message,
  or one of the two alone when the other is empty. The query was made once, and no
  results are returned.
\<close>

theorem search_failure_message:
  assumes "client s (queries w) (search_call nts s q k) = Inl e"
  shows "similaritySearchVectorWithScore nts s q k w
           = (Inl (JsError ''Error''
                     (''Error searching for documents: ''
                        @ (if errName e = [] then errMessage e
                           else if errMessage e = [] then errName e
                           else errName e @ '': '' @ errMessage e))),
              w\<lparr>queries := queries w @ [search_call nts s q k]\<rparr>)
       \<and> (\<forall>results. fst (similaritySearchVectorWithScore nts s q k w) \<noteq> Inr results)"
  by (simp add: search_failed [OF assms] errorToString_def)

theorem search_failure_message_witness:
  "client (storeOf rejectingClient unitEmbeddings) (queries w0)
       (search_call renderOne (storeOf rejectingClient unitEmbeddings) [1] 2)
     = Inl (JsError ''error'' ''relation does not exist'')
   \<and> similaritySearchVectorWithScore renderOne (storeOf rejectingClient unitEmbeddings) [1] 2 w0
     = (Inl (JsError ''Error''
              ''Error searching for documents: error: relation does not exist''),
        \<lparr> queries = [search_call renderOne (storeOf rejectingClient unitEmbeddings) [1] 2],
          embedCalls = [] \<rparr>)"
proof -
  let ?s = "storeOf rejectingClient unitEmbeddings"
  let ?e = "JsError ''error'' ''relation does not exist''"
  have rej: "client ?s (queries w0) (search_call renderOne ?s [1] 2) = Inl ?e"
    by (simp add: storeOf_def new_PostgresStore_def rejectingClient_def)
  from search_failure_message [OF rej]
  have "similaritySearchVectorWithScore renderOne ?s [1] 2 w0
          = (Inl (JsError ''Error''
                     (''Error searching for documents: ''
                        @ (if errName ?e = [] then errMessage ?e
                           else if errMessage ?e = [] then errName ?e
                           else errName ?e @ '': '' @ errMessage ?e))),
              w0\<lparr>queries := queries w0 @ [search_call renderOne ?s [1] 2]\<rparr>)"
    by blast
  then show ?thesis using rej by (simp add: w0_def)
qed

subsection \<open>C7: an upsert of nothing\<close>

text \<open>
  C7, as stated: an upsert of an empty document sequence makes no store write, no
  provider call and no store call, and succeeds. \<^verbatim>\<open>addDocuments\<close> has no test for the
  empty sequence: it calls the provider with the empty list of texts.
\<close>

theorem addDocuments_empty_counterexample:
  "embedCalls w0 = []
   \<and> embedCalls (snd (addDocuments (storeOf acceptingClient unitEmbeddings) [] w0)) = [[]]"
  by (simp add: addDocuments_embedCalls w0_def)

text \<open>
  C7, amended: \<^verbatim>\<open>addVectors\<close> with no vectors makes no call and succeeds.
  \<^verbatim>\<open>addDocuments\<close> with no documents makes no store call and exactly one provider call,
  with the empty list of texts; it succeeds when that call returns no vectors.
\<close>

theorem upsert_of_nothing:
  "addVectors s [] documents w = (Inr (), w)
   \<and> queries (snd (addDocuments s [] w)) = queries w
   \<and> embedCalls (snd (addDocuments s [] w)) = embedCalls w @ [[]]
   \<and> (embeddings s [] = Inr [] \<longrightarrow>
        addDocuments s [] w = (Inr (), w\<lparr>embedCalls := embedCalls w @ [[]]\<rparr>))"
proof -
  have av: "addVectors s [] ds w' = (Inr (), w')" for ds w'
    by (simp add: addVectors_def loop_done)
  have q: "queries (snd (addDocuments s [] w)) = queries w"
  proof (cases "embeddings s (map pageContent ([] :: Document list))")
    case (Inl e)
    then show ?thesis by (simp add: addDocuments_embed_failed)
  next
    case (Inr vs)
    then show ?thesis
      by (cases vs) (simp_all add: addDocuments_embedded [OF Inr] av addVectors_surplus)
  qed
  have e: "embedCalls (snd (addDocuments s [] w)) = embedCalls w @ [[]]"
    using addDocuments_embedCalls [of s "[]" w] by simp
  have r: "embeddings s [] = Inr [] \<longrightarrow>
        addDocuments s [] w = (Inr (), w\<lparr>embedCalls := embedCalls w @ [[]]\<rparr>)"
    using addDocuments_embedded [of s "[]" "[]" w] by (simp add: av)
  from av q e r show ?thesis by (intro conjI)
qed

theorem upsert_of_nothing_witness:
  "embeddings (storeOf acceptingClient unitEmbeddings) [] = Inr []
   \<and> addVectors (storeOf acceptingClient unitEmbeddings) [] [] w0 = (Inr (), w0)
   \<and> addDocuments (storeOf acceptingClient unitEmbeddings) [] w0
       = (Inr (), \<lparr> queries = [], embedCalls = [[]] \<rparr>)"
proof -
  let ?s = "storeOf acceptingClient unitEmbeddings"
  have emb: "embeddings ?s [] = Inr []"
    by (simp add: storeOf_def new_PostgresStore_def unitEmbeddings_def)
  from upsert_of_nothing [of ?s "[]" w0] emb
  have "addVectors ?s [] [] w0 = (Inr (), w0)
        \<and> addDocuments ?s [] w0 = (Inr (), w0\<lparr>embedCalls := embedCalls w0 @ [[]]\<rparr>)"
    by blast
  then show ?thesis using emb by (simp add: w0_def)
qed

subsection \<open>C8: what a result is made of\<close>

text \<open>
  C8: each row of the store's answer gives one result, the pair of a document made of
  the row's content and metadata and of the row's similarity. The row's id is not in
  it: an answer that differs only in the ids gives the same results.
\<close>

theorem search_result_of_row:
  assumes "client s (queries w) (search_call nts s q k) = Inr rows"
    and "client s' (queries w') (search_call nts' s' q' k') = Inr (map (resp_id_update g) rows)"
  shows "fst (similaritySearchVectorWithScore nts s q k w)
           = Inr (map (\<lambda>resp. (\<lparr> pageContent = resp_content resp, metadata = resp_metadata resp \<rparr>,
                                resp_similarity resp)) rows)
       \<and> fst (similaritySearchVectorWithScore nts' s' q' k' w')
           = fst (similaritySearchVectorWithScore nts s q k w)"
proof -
  have "toResult = (\<lambda>resp. (\<lparr> pageContent = resp_content resp, metadata = resp_metadata resp \<rparr>,
                             resp_similarity resp))"
    by (rule ext) (simp add: toResult_def)
  moreover have "map toResult (map (resp_id_update g) rows) = map toResult rows"
    by (simp add: toResult_def)
  ultimately show ?thesis
    by (simp add: search_answered [OF assms(1)] search_answered [OF assms(2)])
qed

theorem search_result_of_row_witness:
  "client (storeOf rankedClient unitEmbeddings) (queries w0)
       (search_call renderOne (storeOf rankedClient unitEmbeddings) [1] 2) = Inr [rowHigh, rowLow]
   \<and> client (storeOf renumberedClient unitEmbeddings) (queries w0)
       (search_call renderOne (storeOf renumberedClient unitEmbeddings) [1] 2)
       = Inr (map (resp_id_update (\<lambda>i. i + 40)) [rowHigh, rowLow])
   \<and> fst (similaritySearchVectorWithScore renderOne (storeOf rankedClient unitEmbeddings) [1] 2 w0)
       = Inr [(\<lparr> pageContent = ''high'', metadata = Object [] \<rparr>, 9/10),
              (\<lparr> pageContent = ''low'', metadata = Object [] \<rparr>, 1/2)]
   \<and> fst (similaritySearchVectorWithScore renderOne (storeOf renumberedClient unitEmbeddings) [1] 2 w0)
       = Inr [(\<lparr> pageContent = ''high'', metadata = Object [] \<rparr>, 9/10),
              (\<lparr> pageContent = ''low'', metadata = Object [] \<rparr>, 1/2)]"
proof -
  let ?s = "storeOf rankedClient unitEmbeddings"
  let ?s' = "storeOf renumberedClient unitEmbeddings"
  have a: "client ?s (queries w0) (search_call renderOne ?s [1] 2) = Inr [rowHigh, rowLow]"
    by (simp add: storeOf_def new_PostgresStore_def rankedClient_def)
  have b: "client ?s' (queries w0) (search_call renderOne ?s' [1] 2)
             = Inr (map (resp_id_update (\<lambda>i. i + 40)) [rowHigh, rowLow])"
    by (simp add: storeOf_def new_PostgresStore_def renumberedClient_def rowHigh_def rowLow_def)
  from search_result_of_row [OF a b] a b show ?thesis
    by (simp add: rowHigh_def rowLow_def)
qed

subsection \<open>C9: the default table name\<close>

text \<open>
  C9: when the arguments carry no table name, the store made by the constructor, by
  \<^verbatim>\<open>fromExistingIndex\<close>, by \<^verbatim>\<open>fromDocuments\<close> or by \<^verbatim>\<open>fromTexts\<close> has the table name
  \<^verbatim>\<open>documents\<close>; every merge call made while it is built or by a later
  \<^verbatim>\<open>addVectors\<close> or \<^verbatim>\<open>addDocuments\<close> binds \<^verbatim>\<open>documents\<close> as the table, and the text
  of a search reads from \<^verbatim>\<open>documents\<close>.
\<close>

theorem default_table_name:
  assumes "args_tableName args = None"
  shows "tableName (new_PostgresStore emb args) = ''documents''
       \<and> tableName (fromExistingIndex emb args) = ''documents''
       \<and> (\<forall>inst w'. fromDocuments docs emb args w = (Inr inst, w') \<longrightarrow> tableName inst = ''documents'')
       \<and> (\<forall>inst w'. fromTexts texts ms emb args w = (Inr inst, w') \<longrightarrow> tableName inst = ''documents'')
       \<and> (\<forall>c \<in> set (issued w (snd (fromDocuments docs emb args w))).
             q_params c = [PString ''documents'', PRows (call_chunk c)])
       \<and> (\<forall>c \<in> set (issued w (snd (fromTexts texts ms emb args w))).
             q_params c = [PString ''documents'', PRows (call_chunk c)])
       \<and> (\<forall>c \<in> set (issued w (snd (addVectors (new_PostgresStore emb args) vectors documents w))).
             q_params c = [PString ''documents'', PRows (call_chunk c)])
       \<and> (\<forall>c \<in> set (issued w (snd (addDocuments (new_PostgresStore emb args) documents w))).
             q_params c = [PString ''documents'', PRows (call_chunk c)])
       \<and> q_text (search_call nts (new_PostgresStore emb args) q k) = similaryQuery nts ''documents'' q k
       \<and> sublist (''FROM documents'' @ nl) (q_text (search_call nts (new_PostgresStore emb args) q k))"
proof -
  let ?s = "new_PostgresStore emb args"
  have n: "tableName ?s = ''documents''" by (rule default_name [OF assms])
  have e: "tableName (fromExistingIndex emb args) = ''documents''"
    by (simp add: fromExistingIndex_def n)
  have d: "\<forall>inst w'. fromDocuments ds emb args w = (Inr inst, w') \<longrightarrow> tableName inst = ''documents''" for ds
    using fromDocuments_instance n by blast
  have t: "\<forall>inst w'. fromTexts texts ms emb args w = (Inr inst, w') \<longrightarrow> tableName inst = ''documents''"
    unfolding fromTexts_def Let_def by (rule d)
  have dq: "\<forall>c \<in> set (issued w (snd (fromDocuments ds emb args w))).
             q_params c = [PString ''documents'', PRows (call_chunk c)]" for ds
    using addDocuments_issued_params [of w ?s ds] by (simp add: fromDocuments_world n)
  have tq: "\<forall>c \<in> set (issued w (snd (fromTexts texts ms emb args w))).
             q_params c = [PString ''documents'', PRows (call_chunk c)]"
    unfolding fromTexts_def Let_def by (rule dq)
  have vq: "\<forall>c \<in> set (issued w (snd (addVectors ?s vectors documents w))).
             q_params c = [PString ''documents'', PRows (call_chunk c)]"
    using addVectors_issued_params [of w ?s vectors documents] by (simp add: n)
  have aq: "\<forall>c \<in> set (issued w (snd (addDocuments ?s documents w))).
             q_params c = [PString ''documents'', PRows (call_chunk c)]"
    using addDocuments_issued_params [of w ?s documents] by (simp add: n)
  have st: "q_text (search_call nts ?s q k) = similaryQuery nts ''documents'' q k"
    by (simp add: search_call_def n)
  have "similaryQuery nts ''documents'' q k =
          (nl @ ''      SELECT *,'' @ nl @ ''      id,'' @ nl @ ''      content,''
            @ nl @ ''      metadata,''
            @ nl @ ''      1 - (documents.embedding <=> '' @ [CHR 0x27] @ ''[''
            @ removeEllipsis (join_comma (map nts q)) @ '']'' @ [CHR 0x27] @ '') as similarity''
            @ nl @ ''      '')
          @ (''FROM documents'' @ nl) @ (''      LIMIT '' @ natToString k @ nl @ ''    '')"
    by (simp add: similaryQuery_def)
  then have sub: "sublist (''FROM documents'' @ nl) (q_text (search_call nts ?s q k))"
    unfolding st sublist_def by blast
  from n e d [of docs] t dq [of docs] tq vq aq st sub show ?thesis by (intro conjI)
qed


theorem default_table_name_witness:
  "args_tableName \<lparr> args_client = acceptingClient, args_tableName = None \<rparr> = None
   \<and> tableName (fromExistingIndex unitEmbeddings \<lparr> args_client = acceptingClient, args_tableName = None \<rparr>)
       = ''documents''
   \<and> map_sum errName tableName
         (fst (fromDocuments [docA] unitEmbeddings
                 \<lparr> args_client = acceptingClient, args_tableName = None \<rparr> w0))
       = Inr ''documents''
   \<and> map q_params
         (issued w0 (snd (fromDocuments [docA] unitEmbeddings
                            \<lparr> args_client = acceptingClient, args_tableName = None \<rparr> w0)))
       = [[PString ''documents'',
           PRows [\<lparr> row_content = ''a'', row_embedding = [1], row_metadata = Object [] \<rparr>]]]"
proof -
  let ?args = "\<lparr> args_client = acceptingClient, args_tableName = None \<rparr>"
  let ?s = "new_PostgresStore unitEmbeddings ?args"
  let ?rows = "[\<lparr> row_content = ''a'', row_embedding = [1], row_metadata = Object [] \<rparr>]"
  have h: "args_tableName ?args = None" by simp
  note T = default_table_name [OF h, where emb = unitEmbeddings and docs = "[docA]" and w = w0
      and texts = "[]" and ms = "MetadataObject Undefined" and vectors = "[]" and documents = "[]"
      and nts = renderOne and q = "[]" and k = 0]
  have emb: "embeddings ?s (map pageContent [docA]) = Inr [[1]]"
    by (simp add: new_PostgresStore_def unitEmbeddings_def)
  have acc: "\<And>h c. \<exists>rs. client ?s h c = Inr rs"
    by (simp add: new_PostgresStore_def acceptingClient_def)
  have len: "length [[1::real]] \<le> length [docA]" by simp
  have ch: "chunksOf chunkSize (paired_rows [[1]] [docA]) = [?rows]"
    by (subst chunksOf.simps) (simp add: chunkSize_def paired_rows_def docA_def)
  have run: "addDocuments ?s [docA] w0
        = (Inr (), \<lparr> queries = [merge_call ?s ?rows], embedCalls = [map pageContent [docA]] \<rparr>)"
    by (simp only: addDocuments_embedded [OF emb] addVectors_accepted [OF len acc] ch)
       (simp add: w0_def)
  then have made: "fromDocuments [docA] unitEmbeddings ?args w0
        = (Inr ?s, \<lparr> queries = [merge_call ?s ?rows], embedCalls = [map pageContent [docA]] \<rparr>)"
    by (simp add: fromDocuments_def Let_def)
  then have iss: "issued w0 (snd (fromDocuments [docA] unitEmbeddings ?args w0)) = [merge_call ?s ?rows]"
    by (simp add: issued_def w0_def)
  from T made have name: "tableName ?s = ''documents''" by blast
  from T iss have "q_params (merge_call ?s ?rows)
                     = [PString ''documents'', PRows (call_chunk (merge_call ?s ?rows))]"
    by simp
  then have "map q_params (issued w0 (snd (fromDocuments [docA] unitEmbeddings ?args w0)))
               = [[PString ''documents'', PRows ?rows]]"
    by (simp add: iss call_chunk_def merge_call_def)
  moreover from T have "tableName (fromExistingIndex unitEmbeddings ?args) = ''documents''"
    by blast
  ultimately show ?thesis using made name by simp
qed

subsection \<open>C10: documents without a vector\<close>

text \<open>
  C10, as stated: exactly as many rows as there are vectors are formed and written. They
  are formed, but a write that throws leaves the loop and the error is dropped: with 201
  vectors, 202 documents and a store that rejects the merge statement, 200 rows are sent
  and the promise resolves.
\<close>

theorem addVectors_rows_unwritten_counterexample:
  "length (replicate 201 [1::real]) < length (replicate 202 docA)
   \<and> fst (addVectors (storeOf rejectingClient unitEmbeddings)
            (replicate 201 [1]) (replicate 202 docA) w0) = Inr ()
   \<and> length (concat (map call_chunk
        (issued w0 (snd (addVectors (storeOf rejectingClient unitEmbeddings)
                           (replicate 201 [1]) (replicate 202 docA) w0)))))
       = 200"
proof -
  let ?s = "storeOf rejectingClient unitEmbeddings"
  let ?vs = "replicate 201 [1::real]"
  let ?ds = "replicate 202 docA"
  have le: "length ?vs \<le> length ?ds" by simp
  have ne: "?vs \<noteq> []" by simp
  have rej: "client ?s (queries w0) (merge_call ?s (take chunkSize (paired_rows ?vs ?ds)))
               = Inl (JsError ''error'' ''relation does not exist'')"
    by (simp add: storeOf_def new_PostgresStore_def rejectingClient_def)
  have len: "length (take chunkSize (paired_rows ?vs ?ds)) = 200"
    by (simp add: paired_rows_length chunkSize_def)
  have "addVectors ?s ?vs ?ds w0
          = (Inr (), w0\<lparr>queries := queries w0 @ [merge_call ?s (take chunkSize (paired_rows ?vs ?ds))]\<rparr>)"
    by (rule addVectors_first_rejected [OF le ne rej])
  then show ?thesis using len
    by (simp add: issued_def w0_def call_chunk_def merge_call_def)
qed

text \<open>
  C10, amended: when there are no more vectors than documents, \<^verbatim>\<open>addVectors\<close> forms one
  row for each vector, from the vector and the document at its index. The documents past
  the last vector play no part: the run is the run on the documents cut to the number of
  vectors, and it raises no error. The rows sent to the store are the first rows formed,
  in chunks of 200 up to and including the first chunk the store rejects; they are all
  the rows formed when the store rejects no write of the run.
\<close>

theorem addVectors_rows_by_vector_index:
  assumes "length vectors \<le> length documents"
  shows "make_rows vectors documents = Inr (paired_rows vectors documents)
       \<and> length (paired_rows vectors documents) = length vectors
       \<and> (\<forall>i < length vectors.
             paired_rows vectors documents ! i
               = \<lparr> row_content = pageContent (documents ! i), row_embedding = vectors ! i,
                   row_metadata = metadata (documents ! i) \<rparr>)
       \<and> addVectors s vectors documents w = addVectors s vectors (take (length vectors) documents) w
       \<and> fst (addVectors s vectors documents w) = Inr ()
       \<and> (\<exists>m \<le> length (chunksOf 200 (paired_rows vectors documents)).
             concat (map call_chunk (issued w (snd (addVectors s vectors documents w))))
               = take (m * 200) (paired_rows vectors documents)
           \<and> (\<forall>j. Suc j < m \<longrightarrow>
                 \<not> isl (answer_at s w (chunksOf 200 (paired_rows vectors documents)) j))
           \<and> (m < length (chunksOf 200 (paired_rows vectors documents)) \<longrightarrow>
                 0 < m \<and> isl (answer_at s w (chunksOf 200 (paired_rows vectors documents)) (m - 1))))
       \<and> ((\<forall>j < length (chunksOf 200 (paired_rows vectors documents)).
              \<not> isl (answer_at s w (chunksOf 200 (paired_rows vectors documents)) j)) \<longrightarrow>
             concat (map call_chunk (issued w (snd (addVectors s vectors documents w))))
               = paired_rows vectors documents)"
proof -
  let ?rows = "paired_rows vectors documents"
  let ?cs = "chunksOf 200 ?rows"
  have rows: "make_rows vectors documents = Inr ?rows"
    by (rule make_rows_paired [OF assms])
  have len: "length ?rows = length vectors"
    by (rule paired_rows_length [OF assms])
  have nth: "\<forall>i < length vectors. ?rows ! i
               = \<lparr> row_content = pageContent (documents ! i), row_embedding = vectors ! i,
                   row_metadata = metadata (documents ! i) \<rparr>"
    using paired_rows_nth [OF assms] by blast
  have le': "length vectors \<le> length (take (length vectors) documents)"
    using assms by simp
  have drop: "addVectors s vectors documents w = addVectors s vectors (take (length vectors) documents) w"
    by (simp only: addVectors_paired [OF assms] addVectors_paired [OF le'] paired_rows_take)
  have ok: "fst (addVectors s vectors documents w) = Inr ()"
    by (simp add: addVectors_paired [OF assms])
  have carried: "map call_chunk (map (merge_call s) cs) = cs" for cs
    by (induction cs) (simp_all add: call_chunk_def merge_call_def)
  from addVectors_issued_explicit [OF assms, of w s] obtain m where m: "m \<le> length ?cs"
    and q: "issued w (snd (addVectors s vectors documents w)) = map (merge_call s) (take m ?cs)"
    and a: "\<forall>j. Suc j < m \<longrightarrow> \<not> isl (answer_at s w ?cs j)"
    and r: "m < length ?cs \<longrightarrow> 0 < m \<and> isl (answer_at s w ?cs (m - 1))"
    unfolding chunkSize_def by blast
  have "concat (map call_chunk (map (merge_call s) (take m ?cs))) = concat (take m ?cs)"
    by (simp only: carried)
  also have "\<dots> = take (m * 200) ?rows"
    using m by (simp add: concat_take_chunksOf)
  finally have "concat (map call_chunk (issued w (snd (addVectors s vectors documents w))))
          = take (m * 200) ?rows"
    by (simp only: q)
  with m a r have upto: "\<exists>m \<le> length ?cs.
             concat (map call_chunk (issued w (snd (addVectors s vectors documents w))))
               = take (m * 200) ?rows
           \<and> (\<forall>j. Suc j < m \<longrightarrow> \<not> isl (answer_at s w ?cs j))
           \<and> (m < length ?cs \<longrightarrow> 0 < m \<and> isl (answer_at s w ?cs (m - 1)))"
    by blast
  have wr: "(\<forall>j < length ?cs. \<not> isl (answer_at s w ?cs j)) \<longrightarrow>
             concat (map call_chunk (issued w (snd (addVectors s vectors documents w)))) = ?rows"
  proof
    assume "\<forall>j < length ?cs. \<not> isl (answer_at s w ?cs j)"
    then have "issued w (snd (addVectors s vectors documents w)) = map (merge_call s) ?cs"
      using addVectors_issued_accepted [OF assms, of s w] by (simp only: chunkSize_def)
    then have "concat (map call_chunk (issued w (snd (addVectors s vectors documents w))))
                 = concat ?cs"
      by (simp only: carried)
    then show "concat (map call_chunk (issued w (snd (addVectors s vectors documents w)))) = ?rows"
      by (simp add: concat_chunksOf)
  qed
  from rows len nth drop ok upto wr show ?thesis by (intro conjI)
qed


theorem addVectors_rows_by_vector_index_witness:
  "length [[1::real]] \<le> length [docA, docB]
   \<and> addVectors (storeOf acceptingClient unitEmbeddings) [[1]] [docA, docB] w0
       = addVectors (storeOf acceptingClient unitEmbeddings) [[1]] [docA] w0
   \<and> fst (addVectors (storeOf acceptingClient unitEmbeddings) [[1]] [docA, docB] w0) = Inr ()
   \<and> concat (map call_chunk
        (issued w0 (snd (addVectors (storeOf acceptingClient unitEmbeddings) [[1]] [docA, docB] w0))))
       = [\<lparr> row_content = ''a'', row_embedding = [1], row_metadata = Object [] \<rparr>]"
proof -
  let ?s = "storeOf acceptingClient unitEmbeddings"
  have le: "length [[1::real]] \<le> length [docA, docB]" by simp
  have acc: "\<not> isl (answer_at ?s w cs j)" for w cs j
    by (simp add: answer_at_def storeOf_def new_PostgresStore_def acceptingClient_def)
  have tk: "take (length [[1::real]]) [docA, docB] = [docA]"
    by simp
  have pr: "paired_rows [[1]] [docA, docB]
              = [\<lparr> row_content = ''a'', row_embedding = [1], row_metadata = Object [] \<rparr>]"
    by (simp add: paired_rows_def docA_def)
  note T = addVectors_rows_by_vector_index [OF le, of ?s w0, unfolded tk pr]
  from T have same: "addVectors ?s [[1]] [docA, docB] w0 = addVectors ?s [[1]] [docA] w0"
    by blast
  from T have ok: "fst (addVectors ?s [[1]] [docA, docB] w0) = Inr ()"
    by blast
  from T acc have written:
    "concat (map call_chunk (issued w0 (snd (addVectors ?s [[1]] [docA, docB] w0))))
       = [\<lparr> row_content = ''a'', row_embedding = [1], row_metadata = Object [] \<rparr>]"
    by blast
  from le same ok written show ?thesis by (intro conjI)
qed

end
